theory Spec2Isabelle
  imports Complex_Main
begin

section \<open>JavaScript values used by the front end\<close>

text \<open>
  A JavaScript \<^verbatim>\<open>number\<close> produced by \<^verbatim>\<open>parseFloat\<close> is either NaN, one of the two
  infinities, or a finite number. Finite numbers are modelled as reals: the bounds checks
  of the geocoding service only compare them with constants. Every comparison with NaN
  is false, as in JavaScript.
\<close>

datatype js_num = NaN | Fin real | PosInf | NegInf

fun js_ge :: "js_num \<Rightarrow> real \<Rightarrow> bool" where
  "js_ge NaN c = False"
| "js_ge (Fin x) c = (x \<ge> c)"
| "js_ge PosInf c = True"
| "js_ge NegInf c = False"

fun js_le :: "js_num \<Rightarrow> real \<Rightarrow> bool" where
  "js_le NaN c = False"
| "js_le (Fin x) c = (x \<le> c)"
| "js_le PosInf c = False"
| "js_le NegInf c = True"

text \<open>
  The exceptions the geocoding code can raise inside its \<^verbatim>\<open>try\<close> blocks: a rejected
  \<^verbatim>\<open>fetch\<close>, the explicit \<^verbatim>\<open>throw new Error('Geocoding request failed')\<close>, a body that
  is not JSON, and a \<^verbatim>\<open>TypeError\<close> (property access on null, a missing method, a value
  that is not iterable).
\<close>

datatype js_error = Fetch_rejected | Request_failed | Json_syntax_error | TypeError

subsection \<open>Strings\<close>

text \<open>
  A string is a list of characters with codes 0 to 255, read as the code units of the
  JavaScript string; code units above 255 are outside this type. \<^verbatim>\<open>trim\<close> removes the
  white space and line terminators of ECMAScript from both ends; among the codes up to
  255 these are the tab, the line feed, the vertical tab, the form feed, the carriage
  return, the space and the no-break space (code 0xA0). \<^verbatim>\<open>toLowerCase\<close> is modelled on
  the letters A to Z.
\<close>

definition is_space :: "char \<Rightarrow> bool" where
  "is_space c \<longleftrightarrow>
     c \<in> {CHR '' '', CHR 0x09, CHR 0x0A, CHR 0x0B, CHR 0x0C, CHR 0x0D, CHR 0xA0}"

definition trim :: "string \<Rightarrow> string" where
  "trim s = rev (dropWhile is_space (rev (dropWhile is_space s)))"

definition toLowerCase_char :: "char \<Rightarrow> char" where
  "toLowerCase_char c =
     (let n = (of_char c :: nat) in if 65 \<le> n \<and> n \<le> 90 then char_of (n + 32) else c)"

definition toLowerCase :: "string \<Rightarrow> string" where
  "toLowerCase s = map toLowerCase_char s"

fun js_includes :: "string \<Rightarrow> string \<Rightarrow> bool" where
  "js_includes [] sub = (sub = [])"
| "js_includes (c # cs) sub = (take (length sub) (c # cs) = sub \<or> js_includes cs sub)"

section \<open>The geocoding service\<close>

text \<open>
  \<^verbatim>\<open>interface Coordinate { lat: number; lon: number }\<close> and
  \<^verbatim>\<open>interface GeocodingResult { lat: number; lon: number; name: string }\<close>.
  The record is polymorphic in the number type; the front end uses it with JavaScript
  numbers.
\<close>

record 'n coordinate =
  lat :: 'n
  lon :: 'n

record 'n geocoding_result = "'n coordinate" +
  name :: string

text \<open>
  What Nominatim answered. An element of the answer array is \<^verbatim>\<open>null\<close> (reading a
  property of it throws) or has the fields the code reads; a field is kept raw (type
  \<open>'v\<close>) and read through \<^verbatim>\<open>parseFloat\<close>, a parameter of the model. The parsed body
  itself is an array or one of the other JSON values, told apart by what the code does
  with them: \<^verbatim>\<open>null\<close>; \<^verbatim>\<open>false\<close> or \<^verbatim>\<open>0\<close>; the empty string; a non-empty string; any
  other value (an object, \<^verbatim>\<open>true\<close>, a non-zero number). Of such a value the code reads
  two properties, which \<open>Json_object\<close> carries: whether \<^verbatim>\<open>results.length === 0\<close> holds
  (an object with a key \<^verbatim>\<open>length\<close> of value 0), and \<^verbatim>\<open>results[0]\<close> (\<open>None\<close> when it is
  undefined, as for \<^verbatim>\<open>true\<close>, for a number, and for an object without the key \<^verbatim>\<open>0\<close>).
  Such a value has no method \<^verbatim>\<open>map\<close> and is not iterable.
\<close>

record 'v nominatim_item =
  item_lat :: 'v
  item_lon :: 'v
  display_name :: "string option"

datatype 'v element = Null_element | Item "'v nominatim_item"

datatype 'v json_body =
    Json_null
  | Json_false_or_zero
  | Json_empty_string
  | Json_string string
  | Json_object bool "'v element option"
  | Json_array "'v element list"

datatype 'v json_outcome = Bad_json | Parsed "'v json_body"

datatype 'v fetch_outcome = Network_failure | Http_response bool "'v json_outcome"

text \<open>
  The request URL, by its parts: the \<^verbatim>\<open>q\<close> and \<^verbatim>\<open>limit\<close> parameters, and whether
  \<^verbatim>\<open>bounded=1&viewbox=80.14,13.23,80.33,12.85\<close> is appended. \<^verbatim>\<open>fetch\<close> is the environment:
  any function from requests to outcomes.
\<close>

record nominatim_request =
  req_q :: string
  req_limit :: nat
  req_bounded_viewbox :: bool

type_synonym 'v fetch = "nominatim_request \<Rightarrow> 'v fetch_outcome"

text \<open>\<^verbatim>\<open>result.display_name || locationText\<close>: the empty string is falsy too.\<close>

fun name_or :: "string option \<Rightarrow> string \<Rightarrow> string" where
  "name_or None locationText = locationText"
| "name_or (Some s) locationText = (if s = [] then locationText else s)"

text \<open>The callback of \<^verbatim>\<open>.map\<close>, and \<^verbatim>\<open>.map\<close> itself: the first throwing call aborts it.\<close>

fun to_result :: "('v \<Rightarrow> js_num) \<Rightarrow> string \<Rightarrow> 'v element \<Rightarrow> js_error + js_num geocoding_result" where
  "to_result parseFloat locationText Null_element = Inl TypeError"
| "to_result parseFloat locationText (Item r) =
     Inr \<lparr>lat = parseFloat (item_lat r), lon = parseFloat (item_lon r),
          name = name_or (display_name r) locationText\<rparr>"

fun map_results :: "('v \<Rightarrow> js_num) \<Rightarrow> string \<Rightarrow> 'v element list \<Rightarrow> js_error + js_num geocoding_result list" where
  "map_results parseFloat locationText [] = Inr []"
| "map_results parseFloat locationText (x # xs) =
     (case to_result parseFloat locationText x of
        Inl e \<Rightarrow> Inl e
      | Inr r \<Rightarrow> (case map_results parseFloat locationText xs of
                   Inl e \<Rightarrow> Inl e
                 | Inr rs \<Rightarrow> Inr (r # rs)))"

text \<open>
  \<^verbatim>\<open>lat >= 12.80 && lat <= 13.28 && lon >= 80.10 && lon <= 80.38\<close>, the test both
  functions of \<^verbatim>\<open>src/unnamed/part_002\<close> apply.
\<close>

definition within_chennai :: "js_num \<Rightarrow> js_num \<Rightarrow> bool" where
  "within_chennai la lo \<longleftrightarrow>
     js_ge la 12.80 \<and> js_le la 13.28 \<and> js_ge lo 80.10 \<and> js_le lo 80.38"

text \<open>The search query, biased towards Chennai unless the text already names it.\<close>

definition searchQuery :: "string \<Rightarrow> string" where
  "searchQuery locationText =
     (if js_includes (toLowerCase locationText) ''chennai'' \<or>
         js_includes (toLowerCase locationText) ''tamil nadu'' \<or>
         js_includes (toLowerCase locationText) ''india''
      then locationText
      else locationText @ '', Chennai, Tamil Nadu, India'')"

subsection \<open>\<^verbatim>\<open>src/unnamed/part_002\<close>: the variant with the Chennai bounds\<close>

text \<open>The body of the \<^verbatim>\<open>try\<close> block of \<^verbatim>\<open>searchLocations\<close>; \<open>Inl\<close> is a throw.\<close>

definition searchLocations_try ::
  "('v \<Rightarrow> js_num) \<Rightarrow> 'v fetch \<Rightarrow> string \<Rightarrow> nat \<Rightarrow> js_error + js_num geocoding_result list" where
  "searchLocations_try parseFloat fetch locationText limit =
     (case fetch \<lparr>req_q = searchQuery locationText, req_limit = limit, req_bounded_viewbox = True\<rparr> of
        Network_failure \<Rightarrow> Inl Fetch_rejected
      | Http_response ok body \<Rightarrow>
          if \<not> ok then Inl Request_failed
          else (case body of
                  Bad_json \<Rightarrow> Inl Json_syntax_error
                | Parsed results \<Rightarrow>
                    (case results of
                       Json_null \<Rightarrow> Inr []
                     | Json_false_or_zero \<Rightarrow> Inr []
                     | Json_empty_string \<Rightarrow> Inr []
                     | Json_string s \<Rightarrow> Inl TypeError
                     | Json_object length_is_zero first_element \<Rightarrow> Inl TypeError
                     | Json_array xs \<Rightarrow>
                         (case map_results parseFloat locationText xs of
                            Inl e \<Rightarrow> Inl e
                          | Inr rs \<Rightarrow> Inr (filter (\<lambda>r. within_chennai (lat r) (lon r)) rs)))))"

text \<open>
  The whole function: the blank test before the \<^verbatim>\<open>try\<close>, and the \<^verbatim>\<open>catch\<close> that logs
  and returns \<^verbatim>\<open>[]\<close>. The result type keeps a place for an exception that escapes.
\<close>

definition searchLocations ::
  "('v \<Rightarrow> js_num) \<Rightarrow> 'v fetch \<Rightarrow> string \<Rightarrow> nat \<Rightarrow> js_error + js_num geocoding_result list" where
  "searchLocations parseFloat fetch locationText limit =
     (if trim locationText = [] then Inr []
      else (case searchLocations_try parseFloat fetch locationText limit of
              Inl e \<Rightarrow> Inr []
            | Inr rs \<Rightarrow> Inr rs))"

text \<open>
  The \<^verbatim>\<open>for (const result of results)\<close> loop of \<^verbatim>\<open>geocodeLocation\<close> over an array:
  the first element inside the bounds is returned.
\<close>

fun first_within :: "('v \<Rightarrow> js_num) \<Rightarrow> string \<Rightarrow> 'v element list \<Rightarrow> js_error + js_num geocoding_result option" where
  "first_within parseFloat locationText [] = Inr None"
| "first_within parseFloat locationText (Null_element # xs) = Inl TypeError"
| "first_within parseFloat locationText (Item r # xs) =
     (let la = parseFloat (item_lat r); lo = parseFloat (item_lon r) in
      if within_chennai la lo
      then Inr (Some \<lparr>lat = la, lon = lo, name = name_or (display_name r) locationText\<rparr>)
      else first_within parseFloat locationText xs)"

definition geocodeLocation_try ::
  "('v \<Rightarrow> js_num) \<Rightarrow> 'v fetch \<Rightarrow> string \<Rightarrow> js_error + js_num geocoding_result option" where
  "geocodeLocation_try parseFloat fetch locationText =
     (case fetch \<lparr>req_q = searchQuery locationText, req_limit = 10, req_bounded_viewbox = True\<rparr> of
        Network_failure \<Rightarrow> Inl Fetch_rejected
      | Http_response ok body \<Rightarrow>
          if \<not> ok then Inl Request_failed
          else (case body of
                  Bad_json \<Rightarrow> Inl Json_syntax_error
                | Parsed results \<Rightarrow>
                    (case results of
                       Json_null \<Rightarrow> Inl TypeError
                     | Json_false_or_zero \<Rightarrow> Inl TypeError
                     | Json_empty_string \<Rightarrow> Inr None
                     | Json_string s \<Rightarrow> Inr None
                     | Json_object length_is_zero first_element \<Rightarrow>
                         if length_is_zero then Inr None else Inl TypeError
                     | Json_array xs \<Rightarrow>
                         if length xs = 0 then Inr None
                         else first_within parseFloat locationText xs)))"

definition geocodeLocation ::
  "('v \<Rightarrow> js_num) \<Rightarrow> 'v fetch \<Rightarrow> string \<Rightarrow> js_error + js_num geocoding_result option" where
  "geocodeLocation parseFloat fetch locationText =
     (if trim locationText = [] then Inr None
      else (case geocodeLocation_try parseFloat fetch locationText of
              Inl e \<Rightarrow> Inr None
            | Inr r \<Rightarrow> Inr r))"

subsection \<open>\<^verbatim>\<open>src/frontend/src/services/geocoding.ts\<close>: the variant without bounds\<close>

definition searchLocations_services_try ::
  "('v \<Rightarrow> js_num) \<Rightarrow> 'v fetch \<Rightarrow> string \<Rightarrow> nat \<Rightarrow> js_error + js_num geocoding_result list" where
  "searchLocations_services_try parseFloat fetch locationText limit =
     (case fetch \<lparr>req_q = locationText, req_limit = limit, req_bounded_viewbox = False\<rparr> of
        Network_failure \<Rightarrow> Inl Fetch_rejected
      | Http_response ok body \<Rightarrow>
          if \<not> ok then Inl Request_failed
          else (case body of
                  Bad_json \<Rightarrow> Inl Json_syntax_error
                | Parsed results \<Rightarrow>
                    (case results of
                       Json_null \<Rightarrow> Inr []
                     | Json_false_or_zero \<Rightarrow> Inr []
                     | Json_empty_string \<Rightarrow> Inr []
                     | Json_string s \<Rightarrow> Inl TypeError
                     | Json_object length_is_zero first_element \<Rightarrow> Inl TypeError
                     | Json_array xs \<Rightarrow> map_results parseFloat locationText xs)))"

definition searchLocations_services ::
  "('v \<Rightarrow> js_num) \<Rightarrow> 'v fetch \<Rightarrow> string \<Rightarrow> nat \<Rightarrow> js_error + js_num geocoding_result list" where
  "searchLocations_services parseFloat fetch locationText limit =
     (if trim locationText = [] then Inr []
      else (case searchLocations_services_try parseFloat fetch locationText limit of
              Inl e \<Rightarrow> Inr []
            | Inr rs \<Rightarrow> Inr rs))"

text \<open>
  \<^verbatim>\<open>geocodeLocation\<close> of the same file returns \<^verbatim>\<open>results[0]\<close> unchecked. On a non-empty
  string \<^verbatim>\<open>results[0]\<close> is its first character, whose \<^verbatim>\<open>lat\<close> and \<^verbatim>\<open>lon\<close> are undefined
  and parse to NaN; on an object with the key \<^verbatim>\<open>0\<close> it is the value of that key; on the
  other values that are not arrays it is undefined, or the access itself throws.
\<close>

definition geocodeLocation_services_try ::
  "('v \<Rightarrow> js_num) \<Rightarrow> 'v fetch \<Rightarrow> string \<Rightarrow> js_error + js_num geocoding_result option" where
  "geocodeLocation_services_try parseFloat fetch locationText =
     (case fetch \<lparr>req_q = locationText, req_limit = 1, req_bounded_viewbox = False\<rparr> of
        Network_failure \<Rightarrow> Inl Fetch_rejected
      | Http_response ok body \<Rightarrow>
          if \<not> ok then Inl Request_failed
          else (case body of
                  Bad_json \<Rightarrow> Inl Json_syntax_error
                | Parsed results \<Rightarrow>
                    (case results of
                       Json_null \<Rightarrow> Inl TypeError
                     | Json_false_or_zero \<Rightarrow> Inl TypeError
                     | Json_empty_string \<Rightarrow> Inr None
                     | Json_string s \<Rightarrow> Inr (Some \<lparr>lat = NaN, lon = NaN, name = locationText\<rparr>)
                     | Json_object length_is_zero first_element \<Rightarrow>
                         if length_is_zero then Inr None
                         else (case first_element of
                                 None \<Rightarrow> Inl TypeError
                               | Some x \<Rightarrow> (case to_result parseFloat locationText x of
                                             Inl e \<Rightarrow> Inl e
                                           | Inr r \<Rightarrow> Inr (Some r)))
                     | Json_array xs \<Rightarrow>
                         (case xs of
                            [] \<Rightarrow> Inr None
                          | x # _ \<Rightarrow> (case to_result parseFloat locationText x of
                                        Inl e \<Rightarrow> Inl e
                                      | Inr r \<Rightarrow> Inr (Some r))))))"

definition geocodeLocation_services ::
  "('v \<Rightarrow> js_num) \<Rightarrow> 'v fetch \<Rightarrow> string \<Rightarrow> js_error + js_num geocoding_result option" where
  "geocodeLocation_services parseFloat fetch locationText =
     (if trim locationText = [] then Inr None
      else (case geocodeLocation_services_try parseFloat fetch locationText of
              Inl e \<Rightarrow> Inr None
            | Inr r \<Rightarrow> Inr r))"

text \<open>
  A request has failed when \<^verbatim>\<open>fetch\<close> rejects, when \<^verbatim>\<open>response.ok\<close> is false, or when the
  body is not JSON.
\<close>

definition fetch_failed :: "'v fetch_outcome \<Rightarrow> bool" where
  "fetch_failed out \<longleftrightarrow>
     (case out of
        Network_failure \<Rightarrow> True
      | Http_response ok body \<Rightarrow> \<not> ok \<or> body = Bad_json)"

text \<open>A sample answer of Nominatim: one place in New York, one in Chennai.\<close>

definition new_york :: "real nominatim_item" where
  "new_york = \<lparr>item_lat = 40.7128, item_lon = - 74.0060, display_name = Some ''New York''\<rparr>"

definition t_nagar :: "real nominatim_item" where
  "t_nagar = \<lparr>item_lat = 13.0418, item_lon = 80.2341, display_name = Some ''T Nagar, Chennai''\<rparr>"

definition sample_fetch :: "real fetch" where
  "sample_fetch req = Http_response True (Parsed (Json_array [Item new_york, Item t_nagar]))"

definition offline_fetch :: "real fetch" where
  "offline_fetch req = Network_failure"

section \<open>The map page (\<^verbatim>\<open>src/frontend/src/pages/MapApp.tsx\<close>)\<close>

subsection \<open>Numbers and their arithmetic\<close>















subsection \<open>Bearing and distance of a route segment\<close>






subsection \<open>What is assumed of the arithmetic\<close>









subsection \<open>An arithmetic with these properties\<close>














subsection \<open>The state of the page\<close>

datatype RouteMode = Safe | Balanced | Stealth | Escort







record AlertResponse =
  alert_type :: "string option"
  alert_message :: "string option"
  action_required :: bool





subsection \<open>Navigation prompts and monitoring\<close>



subsection \<open>\<^verbatim>\<open>handleCalculateRoute\<close>\<close>















section \<open>PathFinder\<close>

text \<open>
  Modelled from the spec: the search of the routing engine (\<^verbatim>\<open>routingengine.py\<close>, which
  calls the Dijkstra search of the NetworkX library) is not among the sources. The
  definitions of this section follow section 4.6 of the specification: Dijkstra's
  single-source shortest path over the graph, with a priority queue keyed by accumulated
  cost, ties broken by the lower node identifier, the weight function evaluated on the
  edges leaving the node that is visited, and no path when the end node is unreachable.
\<close>

text \<open>Modelled from the spec: a node is known by its identifier.\<close>

type_synonym node = nat

text \<open>
  Modelled from the spec: RoadNetworkGraph, the nodes (an identifier with a latitude
  and a longitude) and the directed edges of the road network.
\<close>

record road_graph =
  graph_nodes :: "(node \<times> real \<times> real) list"
  graph_edges :: "(node \<times> node) list"

type_synonym weight_fn = "node \<Rightarrow> node \<Rightarrow> real"

text \<open>
  Modelled from the spec: the node identifiers the graph owns (those of its nodes and
  of the end points of its edges), and the neighbour lookup.
\<close>

definition all_nodes :: "road_graph \<Rightarrow> node list" where
  "all_nodes G =
     remdups (map fst (graph_nodes G) @ map fst (graph_edges G) @ map snd (graph_edges G))"

definition successors :: "road_graph \<Rightarrow> node \<Rightarrow> node list" where
  "successors G u = map snd (filter (\<lambda>e. fst e = u) (graph_edges G))"

text \<open>
  Modelled from the spec: the state of one search. \<open>best\<close> holds, for every node
  discovered so far, the least accumulated cost found and a path of that cost;
  \<open>settled\<close> holds the nodes already taken from the queue.
\<close>

record search_state =
  best :: "node \<rightharpoonup> real \<times> node list"
  settled :: "node set"

text \<open>
  Modelled from the spec: the priority queue, as the list of its entries (accumulated
  cost, node, path): the discovered nodes that are not settled.
\<close>

definition queue :: "road_graph \<Rightarrow> search_state \<Rightarrow> (real \<times> node \<times> node list) list" where
  "queue G st =
     concat (map (\<lambda>v. if v \<in> settled st then []
                       else (case best st v of None \<Rightarrow> [] | Some (c, p) \<Rightarrow> [(c, v, p)]))
                 (all_nodes G))"

text \<open>
  Modelled from the spec: the order of the queue, by accumulated cost, ties broken by the
  lower node identifier.
\<close>

definition before :: "real \<times> node \<times> node list \<Rightarrow> real \<times> node \<times> node list \<Rightarrow> bool" where
  "before a b \<longleftrightarrow> fst a < fst b \<or> (fst a = fst b \<and> fst (snd a) \<le> fst (snd b))"

text \<open>Modelled from the spec: the least entry of the queue in that order, if there is one.\<close>

fun extract_min :: "(real \<times> node \<times> node list) list \<Rightarrow> (real \<times> node \<times> node list) option" where
  "extract_min [] = None"
| "extract_min (a # as) =
     (case extract_min as of
        None \<Rightarrow> Some a
      | Some b \<Rightarrow> if before a b then Some a else Some b)"

text \<open>
  Modelled from the spec: relaxing the edge from the visited node \<open>u\<close> (of cost \<open>cu\<close>
  and path \<open>pu\<close>) to \<open>v\<close>. The weight function is applied here, to this edge only.
\<close>

definition relax_edge ::
  "weight_fn \<Rightarrow> node \<Rightarrow> real \<Rightarrow> node list \<Rightarrow> node \<Rightarrow> search_state \<Rightarrow> search_state" where
  "relax_edge w u cu pu v st =
     (if v \<in> settled st then st
      else (case best st v of
              None \<Rightarrow> st\<lparr>best := (best st)(v \<mapsto> (cu + w u v, pu @ [v]))\<rparr>
            | Some (cv, pv) \<Rightarrow>
                if cu + w u v < cv then st\<lparr>best := (best st)(v \<mapsto> (cu + w u v, pu @ [v]))\<rparr>
                else st))"

text \<open>Modelled from the spec: relaxing every edge that leaves the visited node.\<close>

fun relax ::
  "weight_fn \<Rightarrow> node \<Rightarrow> real \<Rightarrow> node list \<Rightarrow> node list \<Rightarrow> search_state \<Rightarrow> search_state" where
  "relax w u cu pu [] st = st"
| "relax w u cu pu (v # vs) st = relax w u cu pu vs (relax_edge w u cu pu v st)"

text \<open>
  Modelled from the spec: the search loop. The least entry of the queue is taken; if
  its node is the end node its path is returned; otherwise the node is settled and its
  outgoing edges are relaxed. An empty queue means the end node is unreachable
  (\<^verbatim>\<open>NoPathFound\<close>, the value \<open>None\<close>). Each round settles a node of the graph that
  was not settled, so the loop terminates.
\<close>

function dijkstra :: "road_graph \<Rightarrow> weight_fn \<Rightarrow> node \<Rightarrow> search_state \<Rightarrow> node list option" where
  "dijkstra G w t st =
     (case extract_min (queue G st) of
        None \<Rightarrow> None
      | Some (cu, u, pu) \<Rightarrow>
          if u = t then Some pu
          else dijkstra G w t
                 (relax w u cu pu (successors G u) (st\<lparr>settled := insert u (settled st)\<rparr>)))"
  by pat_completeness auto
termination
proof (relation "measure (\<lambda>(G, w, t, st). card (set (all_nodes G) - settled st))")
  show "wf (measure (\<lambda>(G, w, t, st). card (set (all_nodes G) - settled st)))"
    by simp
next
  fix G :: road_graph and w :: weight_fn and t :: node and st :: search_state
    and x2 :: "real \<times> node \<times> node list" and cu :: real and y :: "node \<times> node list"
    and u :: node and pu :: "node list"
  assume ex: "extract_min (queue G st) = Some x2" and x2: "(cu, y) = x2" and y: "(u, pu) = y"
    and "u \<noteq> t"
  have mem: "a \<in> set xs" if "extract_min xs = Some a" for xs a
    using that by (induction xs arbitrary: a) (auto split: option.splits if_splits)
  have same: "settled (relax w u cu pu vs st') = settled st'" for vs st'
    by (induction vs arbitrary: st') (simp_all add: relax_edge_def split: option.splits)
  from ex x2 y have "(cu, u, pu) \<in> set (queue G st)"
    using mem by fastforce
  then have u: "u \<in> set (all_nodes G)" "u \<notin> settled st"
    by (auto simp: queue_def split: if_splits option.splits)
  have "set (all_nodes G) - insert u (settled st) \<subset> set (all_nodes G) - settled st"
    using u by blast
  then have "card (set (all_nodes G) - insert u (settled st)) < card (set (all_nodes G) - settled st)"
    by (intro psubset_card_mono) simp_all
  then show "((G, w, t, relax w u cu pu (successors G u) (st\<lparr>settled := insert u (settled st)\<rparr>)),
              (G, w, t, st)) \<in> measure (\<lambda>(G, w, t, st). card (set (all_nodes G) - settled st))"
    by (simp add: same)
qed

text \<open>
  Modelled from the spec: PathFinder, from start node \<open>s\<close> to end node \<open>t\<close> under the
  weight function \<open>w\<close>.
\<close>

definition pathfinder :: "road_graph \<Rightarrow> weight_fn \<Rightarrow> node \<Rightarrow> node \<Rightarrow> node list option" where
  "pathfinder G w s t = dijkstra G w t \<lparr>best = [s \<mapsto> (0, [s])], settled = {}\<rparr>"

subsection \<open>The search over a copy of the graph that carries the weights\<close>



subsection \<open>Paths and their cost\<close>

text \<open>
  Modelled from the spec: what the claims about the search speak of. A walk is a
  non-empty list of nodes of the graph whose consecutive nodes are joined by edges; a path from \<open>s\<close> to \<open>t\<close> is a walk that starts at \<open>s\<close> and ends at \<open>t\<close>; its
  cost is the sum of the weights of its edges. Two nodes are connected when there is a
  path between them.
\<close>

fun walk :: "road_graph \<Rightarrow> node list \<Rightarrow> bool" where
  "walk G [] = False"
| "walk G [x] = (x \<in> set (all_nodes G))"
| "walk G (x # y # r) = ((x, y) \<in> set (graph_edges G) \<and> walk G (y # r))"

definition is_path :: "road_graph \<Rightarrow> node \<Rightarrow> node list \<Rightarrow> node \<Rightarrow> bool" where
  "is_path G s p t \<longleftrightarrow> walk G p \<and> hd p = s \<and> last p = t"

fun path_cost :: "weight_fn \<Rightarrow> node list \<Rightarrow> real" where
  "path_cost w [] = 0"
| "path_cost w [x] = 0"
| "path_cost w (x # y # r) = w x y + path_cost w (y # r)"

subsection \<open>The invariant of the search\<close>

text \<open>
  No edge of the graph has a negative weight: the precondition of the search
  (section 4.5 of the specification asks for strictly positive weights).
\<close>

definition nonneg_weights :: "road_graph \<Rightarrow> weight_fn \<Rightarrow> bool" where
  "nonneg_weights G w \<longleftrightarrow> (\<forall>(u, v) \<in> set (graph_edges G). 0 \<le> w u v)"

text \<open>Every recorded cost is the cost of the recorded path, which leads from the start.\<close>

definition paths_sound :: "road_graph \<Rightarrow> weight_fn \<Rightarrow> node \<Rightarrow> search_state \<Rightarrow> bool" where
  "paths_sound G w s st \<longleftrightarrow>
     (\<forall>v c p. best st v = Some (c, p) \<longrightarrow> is_path G s p v \<and> path_cost w p = c)"

text \<open>Every edge that leaves a settled node has been relaxed.\<close>

definition settled_relaxed :: "road_graph \<Rightarrow> weight_fn \<Rightarrow> search_state \<Rightarrow> bool" where
  "settled_relaxed G w st \<longleftrightarrow>
     (\<forall>x y. x \<in> settled st \<longrightarrow> (x, y) \<in> set (graph_edges G) \<longrightarrow>
        (\<exists>cx px cy py. best st x = Some (cx, px) \<and> best st y = Some (cy, py) \<and>
           cy \<le> cx + w x y))"

text \<open>No settled node costs more than a node that is not settled.\<close>

definition settled_first :: "search_state \<Rightarrow> bool" where
  "settled_first st \<longleftrightarrow>
     (\<forall>x v cx px cv pv. x \<in> settled st \<longrightarrow> v \<notin> settled st \<longrightarrow>
        best st x = Some (cx, px) \<longrightarrow> best st v = Some (cv, pv) \<longrightarrow> cx \<le> cv)"

text \<open>The search is in its first round, or the start node is settled at cost 0.\<close>

definition start_known :: "node \<Rightarrow> search_state \<Rightarrow> bool" where
  "start_known s st \<longleftrightarrow>
     (settled st = {} \<and> best st = [s \<mapsto> (0, [s])]) \<or>
     (s \<in> settled st \<and> best st s = Some (0, [s]))"

definition settled_known :: "search_state \<Rightarrow> bool" where
  "settled_known st \<longleftrightarrow> (\<forall>x. x \<in> settled st \<longrightarrow> best st x \<noteq> None)"

definition invar :: "road_graph \<Rightarrow> weight_fn \<Rightarrow> node \<Rightarrow> search_state \<Rightarrow> bool" where
  "invar G w s st \<longleftrightarrow>
     paths_sound G w s st \<and> settled_relaxed G w st \<and> settled_first st \<and> start_known s st \<and>
     settled_known st \<and> s \<in> set (all_nodes G)"

text \<open>
  The fixture of the specification: four nodes A, B, C, D (here 0, 1, 2, 3), a direct
  costly edge from A to D, and the longer cheap way over B and C.
\<close>

definition fixture :: road_graph where
  "fixture =
     \<lparr>graph_nodes = [(0, 13.03, 80.22), (1, 13.04, 80.23), (2, 13.05, 80.24), (3, 13.06, 80.25)],
      graph_edges = [(0, 1), (1, 2), (2, 3), (0, 3)]\<rparr>"

definition fixture_weight :: weight_fn where
  "fixture_weight u v = (if (u, v) = (0, 3) then 10 else 1)"

section \<open>Proofs: the geocoding service\<close>

lemma within_chennai_Fin:
  "within_chennai la lo \<Longrightarrow>
     \<exists>x y. la = Fin x \<and> lo = Fin y \<and> 12.80 \<le> x \<and> x \<le> 13.28 \<and> 80.10 \<le> y \<and> y \<le> 80.38"
  by (cases la; cases lo) (auto simp: within_chennai_def)

lemma first_within_bounds:
  "first_within parseFloat locationText xs = Inr (Some r) \<Longrightarrow> within_chennai (lat r) (lon r)"
  by (induction parseFloat locationText xs rule: first_within.induct)
     (auto simp: Let_def split: if_splits)

lemma searchLocations_try_bounds:
  "searchLocations_try parseFloat fetch locationText limit = Inr rs \<Longrightarrow> r \<in> set rs \<Longrightarrow>
     within_chennai (lat r) (lon r)"
  by (auto simp: searchLocations_try_def
      split: fetch_outcome.splits json_outcome.splits json_body.splits sum.splits if_splits)

lemma geocodeLocation_try_bounds:
  "geocodeLocation_try parseFloat fetch locationText = Inr (Some r) \<Longrightarrow>
     within_chennai (lat r) (lon r)"
  by (auto simp: geocodeLocation_try_def dest: first_within_bounds
      split: fetch_outcome.splits json_outcome.splits json_body.splits sum.splits if_splits)

lemma searchLocations_returns:
  "\<exists>rs. searchLocations parseFloat fetch locationText limit = Inr rs \<and>
        (\<forall>r \<in> set rs. within_chennai (lat r) (lon r))"
  by (auto simp: searchLocations_def dest: searchLocations_try_bounds split: sum.splits)

lemma geocodeLocation_returns:
  "\<exists>res. geocodeLocation parseFloat fetch locationText = Inr res \<and>
        (\<forall>r. res = Some r \<longrightarrow> within_chennai (lat r) (lon r))"
  by (auto simp: geocodeLocation_def dest: geocodeLocation_try_bounds split: sum.splits)

lemma searchLocations_failure:
  "fetch_failed (fetch \<lparr>req_q = searchQuery locationText, req_limit = limit,
                        req_bounded_viewbox = True\<rparr>) \<Longrightarrow>
     searchLocations parseFloat fetch locationText limit = Inr []"
  by (auto simp: searchLocations_def searchLocations_try_def fetch_failed_def
      split: fetch_outcome.splits json_outcome.splits sum.splits)

lemma geocodeLocation_failure:
  "fetch_failed (fetch \<lparr>req_q = searchQuery locationText, req_limit = 10,
                        req_bounded_viewbox = True\<rparr>) \<Longrightarrow>
     geocodeLocation parseFloat fetch locationText = Inr None"
  by (auto simp: geocodeLocation_def geocodeLocation_try_def fetch_failed_def
      split: fetch_outcome.splits json_outcome.splits sum.splits)

lemma trim_T_Nagar: "trim ''T Nagar'' = ''T Nagar''"
  by (simp add: trim_def is_space_def)

lemma trim_spaces: "trim ''  '' = []"
  by (simp add: trim_def is_space_def)

lemma services_search_sample:
  "searchLocations_services Fin sample_fetch ''T Nagar'' 5 =
     Inr [\<lparr>lat = Fin 40.7128, lon = Fin (- 74.0060), name = ''New York''\<rparr>,
          \<lparr>lat = Fin 13.0418, lon = Fin 80.2341, name = ''T Nagar, Chennai''\<rparr>]"
  by (simp add: searchLocations_services_def searchLocations_services_try_def sample_fetch_def
      trim_T_Nagar new_york_def t_nagar_def)

lemma services_geocode_sample:
  "geocodeLocation_services Fin sample_fetch ''T Nagar'' =
     Inr (Some \<lparr>lat = Fin 40.7128, lon = Fin (- 74.0060), name = ''New York''\<rparr>)"
  by (simp add: geocodeLocation_services_def geocodeLocation_services_try_def sample_fetch_def
      trim_T_Nagar new_york_def)

lemma new_york_outside: "\<not> within_chennai (Fin 40.7128) (Fin (- 74.0060))"
  by (simp add: within_chennai_def)

text \<open>
  Claim C10. The geocoding functions of \<^verbatim>\<open>src/unnamed/part_002\<close> never throw to their
  caller (the model's result is never \<open>Inl\<close>); every result either of them returns has a
  finite latitude in [12.80, 13.28] and a finite longitude in [80.10, 80.38]; on blank
  input \<^verbatim>\<open>searchLocations\<close> returns the empty list and \<^verbatim>\<open>geocodeLocation\<close> returns null;
  when the request fails (a rejected fetch, a response that is not ok, a body that is not
  JSON) they return the empty list and null. The variant in
  \<^verbatim>\<open>src/frontend/src/services/geocoding.ts\<close> applies no such filter: on some answer of
  the server both of its functions return a place outside the bounds.
\<close>

theorem geocoding_never_throws_and_stays_in_chennai:
  fixes parseFloat :: "'v \<Rightarrow> js_num" and fetch :: "'v fetch"
  shows
    "(\<exists>rs. searchLocations parseFloat fetch locationText limit = Inr rs \<and>
         (\<forall>r \<in> set rs. \<exists>x y. lat r = Fin x \<and> lon r = Fin y \<and>
            12.80 \<le> x \<and> x \<le> 13.28 \<and> 80.10 \<le> y \<and> y \<le> 80.38)) \<and>
     (\<exists>res. geocodeLocation parseFloat fetch locationText = Inr res \<and>
         (\<forall>r. res = Some r \<longrightarrow> (\<exists>x y. lat r = Fin x \<and> lon r = Fin y \<and>
            12.80 \<le> x \<and> x \<le> 13.28 \<and> 80.10 \<le> y \<and> y \<le> 80.38))) \<and>
     (trim locationText = [] \<longrightarrow>
        searchLocations parseFloat fetch locationText limit = Inr [] \<and>
        geocodeLocation parseFloat fetch locationText = Inr None) \<and>
     (fetch_failed (fetch \<lparr>req_q = searchQuery locationText, req_limit = limit,
                           req_bounded_viewbox = True\<rparr>) \<longrightarrow>
        searchLocations parseFloat fetch locationText limit = Inr []) \<and>
     (fetch_failed (fetch \<lparr>req_q = searchQuery locationText, req_limit = 10,
                           req_bounded_viewbox = True\<rparr>) \<longrightarrow>
        geocodeLocation parseFloat fetch locationText = Inr None) \<and>
     (\<exists>r rs. searchLocations_services Fin sample_fetch ''T Nagar'' 5 = Inr (r # rs) \<and>
         \<not> within_chennai (lat r) (lon r)) \<and>
     (\<exists>r. geocodeLocation_services Fin sample_fetch ''T Nagar'' = Inr (Some r) \<and>
         \<not> within_chennai (lat r) (lon r))"
proof -
  have search: "\<exists>rs. searchLocations parseFloat fetch locationText limit = Inr rs \<and>
         (\<forall>r \<in> set rs. \<exists>x y. lat r = Fin x \<and> lon r = Fin y \<and>
            12.80 \<le> x \<and> x \<le> 13.28 \<and> 80.10 \<le> y \<and> y \<le> 80.38)"
    using searchLocations_returns [of parseFloat fetch locationText limit]
    by (meson within_chennai_Fin)
  have geocode: "\<exists>res. geocodeLocation parseFloat fetch locationText = Inr res \<and>
         (\<forall>r. res = Some r \<longrightarrow> (\<exists>x y. lat r = Fin x \<and> lon r = Fin y \<and>
            12.80 \<le> x \<and> x \<le> 13.28 \<and> 80.10 \<le> y \<and> y \<le> 80.38))"
    using geocodeLocation_returns [of parseFloat fetch locationText]
    by (meson within_chennai_Fin)
  have blank: "trim locationText = [] \<longrightarrow>
        searchLocations parseFloat fetch locationText limit = Inr [] \<and>
        geocodeLocation parseFloat fetch locationText = Inr None"
    by (simp add: searchLocations_def geocodeLocation_def)
  have unbounded_search:
    "\<exists>r rs. searchLocations_services Fin sample_fetch ''T Nagar'' 5 = Inr (r # rs) \<and>
         \<not> within_chennai (lat r) (lon r)"
    using new_york_outside by (simp add: services_search_sample)
  have unbounded_geocode:
    "\<exists>r. geocodeLocation_services Fin sample_fetch ''T Nagar'' = Inr (Some r) \<and>
         \<not> within_chennai (lat r) (lon r)"
    using new_york_outside by (simp add: services_geocode_sample)
  show ?thesis
    using search geocode blank unbounded_search unbounded_geocode
      searchLocations_failure [of fetch locationText limit parseFloat]
      geocodeLocation_failure [of fetch locationText parseFloat]
    by blast
qed

text \<open>
  The theorem at concrete inputs: the sample answer (New York is dropped, T Nagar is
  kept), a blank text, and a network failure.
\<close>

theorem geocoding_never_throws_and_stays_in_chennai_witness:
  "searchLocations Fin sample_fetch ''T Nagar'' 5 =
     Inr [\<lparr>lat = Fin 13.0418, lon = Fin 80.2341, name = ''T Nagar, Chennai''\<rparr>] \<and>
   geocodeLocation Fin sample_fetch ''T Nagar'' =
     Inr (Some \<lparr>lat = Fin 13.0418, lon = Fin 80.2341, name = ''T Nagar, Chennai''\<rparr>) \<and>
   trim ''  '' = [] \<and>
   searchLocations Fin sample_fetch ''  '' 5 = Inr [] \<and>
   geocodeLocation Fin sample_fetch ''  '' = Inr None \<and>
   fetch_failed (offline_fetch \<lparr>req_q = searchQuery ''T Nagar'', req_limit = 5,
                                req_bounded_viewbox = True\<rparr>) \<and>
   searchLocations Fin offline_fetch ''T Nagar'' 5 = Inr [] \<and>
   geocodeLocation Fin offline_fetch ''T Nagar'' = Inr None"
proof -
  have failed: "fetch_failed (offline_fetch req)" for req
    by (simp add: fetch_failed_def offline_fetch_def)
  have kept: "searchLocations Fin sample_fetch ''T Nagar'' 5 =
     Inr [\<lparr>lat = Fin 13.0418, lon = Fin 80.2341, name = ''T Nagar, Chennai''\<rparr>]"
    by (simp add: searchLocations_def searchLocations_try_def sample_fetch_def trim_T_Nagar
        new_york_def t_nagar_def within_chennai_def)
  have first: "geocodeLocation Fin sample_fetch ''T Nagar'' =
     Inr (Some \<lparr>lat = Fin 13.0418, lon = Fin 80.2341, name = ''T Nagar, Chennai''\<rparr>)"
    by (simp add: geocodeLocation_def geocodeLocation_try_def sample_fetch_def trim_T_Nagar
        new_york_def t_nagar_def within_chennai_def)
  show ?thesis
    using geocoding_never_throws_and_stays_in_chennai [of Fin sample_fetch "''  ''" 5]
      geocoding_never_throws_and_stays_in_chennai [of Fin offline_fetch "''T Nagar''" 5]
      failed kept first trim_spaces
    by simp
qed

section \<open>Proofs: the map page\<close>

subsection \<open>Route calculation that fails\<close>




subsection \<open>Bearing and distance\<close>














































section \<open>Proofs: PathFinder\<close>

subsection \<open>The queue and relaxation\<close>

lemma relax_edge_settled: "settled (relax_edge w u cu pu v st) = settled st"
  by (simp add: relax_edge_def split: option.splits)

lemma extract_min_None: "extract_min xs = None \<longleftrightarrow> xs = []"
  by (induction xs) (auto split: option.splits)

lemma extract_min_mem: "extract_min xs = Some a \<Longrightarrow> a \<in> set xs"
  by (induction xs arbitrary: a) (auto split: option.splits if_splits)

lemma before_total: "before a b \<or> before b a"
  by (auto simp: before_def)

lemma before_trans: "before a b \<Longrightarrow> before b c \<Longrightarrow> before a c"
  by (auto simp: before_def)

lemma before_refl: "before a a"
  by (simp add: before_def)

lemma extract_min_least: "extract_min xs = Some a \<Longrightarrow> b \<in> set xs \<Longrightarrow> before a b"
proof (induction xs arbitrary: a)
  case Nil
  then show ?case by simp
next
  case (Cons x xs)
  show ?case
  proof (cases "extract_min xs")
    case None
    then have "xs = []" by (simp add: extract_min_None)
    with Cons.prems None show ?thesis by (simp add: before_refl)
  next
    case (Some m)
    note IH = Cons.IH [OF Some]
    show ?thesis
    proof (cases "before x m")
      case True
      with Some Cons.prems have a: "a = x" by simp
      show ?thesis
      proof (cases "b = x")
        case True
        with a show ?thesis by (simp add: before_refl)
      next
        case False
        with Cons.prems have "b \<in> set xs" by simp
        then have "before m b" by (rule IH)
        with True a show ?thesis using before_trans by blast
      qed
    next
      case False
      with Some Cons.prems have a: "a = m" by simp
      from False have mx: "before m x" using before_total by blast
      show ?thesis
      proof (cases "b = x")
        case True
        with a mx show ?thesis by simp
      next
        case False
        with Cons.prems have "b \<in> set xs" by simp
        then show ?thesis using IH a by simp
      qed
    qed
  qed
qed

lemma queue_mem:
  "(c, v, p) \<in> set (queue G st) \<longleftrightarrow>
     v \<in> set (all_nodes G) \<and> v \<notin> settled st \<and> best st v = Some (c, p)"
  by (auto simp: queue_def split: if_splits option.splits)

lemma relax_settled: "settled (relax w u cu pu vs st) = settled st"
  by (induction vs arbitrary: st) (simp_all add: relax_edge_settled)

subsection \<open>The invariant\<close>

lemma invar_paths:
  "invar G w s st \<Longrightarrow> best st v = Some (c, p) \<Longrightarrow> is_path G s p v \<and> path_cost w p = c"
  unfolding invar_def paths_sound_def by blast

lemma invar_relaxed:
  "invar G w s st \<Longrightarrow> x \<in> settled st \<Longrightarrow> (x, y) \<in> set (graph_edges G) \<Longrightarrow>
     \<exists>cx px cy py. best st x = Some (cx, px) \<and> best st y = Some (cy, py) \<and> cy \<le> cx + w x y"
  unfolding invar_def settled_relaxed_def by blast

lemma invar_first:
  "invar G w s st \<Longrightarrow> x \<in> settled st \<Longrightarrow> v \<notin> settled st \<Longrightarrow>
     best st x = Some (cx, px) \<Longrightarrow> best st v = Some (cv, pv) \<Longrightarrow> cx \<le> cv"
  unfolding invar_def settled_first_def by blast

lemma invar_start:
  "invar G w s st \<Longrightarrow>
     (settled st = {} \<and> best st = [s \<mapsto> (0, [s])]) \<or> (s \<in> settled st \<and> best st s = Some (0, [s]))"
  unfolding invar_def start_known_def by blast

lemma invar_known: "invar G w s st \<Longrightarrow> x \<in> settled st \<Longrightarrow> best st x \<noteq> None"
  unfolding invar_def settled_known_def by blast

lemma invar_start_node: "invar G w s st \<Longrightarrow> s \<in> set (all_nodes G)"
  unfolding invar_def by blast

lemma edge_nodes:
  "(x, y) \<in> set (graph_edges G) \<Longrightarrow> x \<in> set (all_nodes G) \<and> y \<in> set (all_nodes G)"
  by (force simp: all_nodes_def)

lemma walk_nodes: "walk G p \<Longrightarrow> set p \<subseteq> set (all_nodes G)"
  by (induction G p rule: walk.induct) (auto dest: edge_nodes)

lemma walk_last: "walk G p \<Longrightarrow> last p \<in> set (all_nodes G)"
  by (induction G p rule: walk.induct) auto

lemma walk_snoc:
  "walk G p \<Longrightarrow> (last p, v) \<in> set (graph_edges G) \<Longrightarrow> walk G (p @ [v])"
  by (induction G p rule: walk.induct) (auto dest: edge_nodes)

lemma path_cost_snoc:
  "p \<noteq> [] \<Longrightarrow> path_cost w (p @ [v]) = path_cost w p + w (last p) v"
  by (induction w p rule: path_cost.induct) auto

lemma is_path_snoc:
  assumes "is_path G s p u" and "(u, v) \<in> set (graph_edges G)"
  shows "is_path G s (p @ [v]) v \<and> path_cost w (p @ [v]) = path_cost w p + w u v"
proof -
  from assms(1) have p: "walk G p" "hd p = s" "last p = u" by (simp_all add: is_path_def)
  then have ne: "p \<noteq> []" by auto
  have "walk G (p @ [v])" using p assms(2) by (simp add: walk_snoc)
  moreover have "hd (p @ [v]) = s" using ne p by simp
  ultimately show ?thesis using ne p by (simp add: is_path_def path_cost_snoc)
qed

lemma path_cost_nonneg: "nonneg_weights G w \<Longrightarrow> walk G p \<Longrightarrow> 0 \<le> path_cost w p"
  by (induction G p rule: walk.induct) (auto simp: nonneg_weights_def)

lemma successors_mem: "v \<in> set (successors G u) \<longleftrightarrow> (u, v) \<in> set (graph_edges G)"
  by (force simp: successors_def)

lemma relax_edge_best_settled:
  "x \<in> settled st \<Longrightarrow> best (relax_edge w u cu pu v st) x = best st x"
  by (auto simp: relax_edge_def split: option.splits)

lemma relax_edge_best_cases:
  "best (relax_edge w u cu pu v st) x = Some (c, p) \<Longrightarrow>
     best st x = Some (c, p) \<or> (x = v \<and> v \<notin> settled st \<and> c = cu + w u v \<and> p = pu @ [v])"
  by (auto simp: relax_edge_def split: option.splits if_splits)

lemma relax_edge_best_mono:
  "best st x = Some (c, p) \<Longrightarrow> \<exists>c' p'. best (relax_edge w u cu pu v st) x = Some (c', p') \<and> c' \<le> c"
  by (auto simp: relax_edge_def split: option.splits)

lemma relax_edge_best_relaxed:
  "v \<notin> settled st \<Longrightarrow> \<exists>c p. best (relax_edge w u cu pu v st) v = Some (c, p) \<and> c \<le> cu + w u v"
  by (auto simp: relax_edge_def split: option.splits)

lemma relax_best_settled:
  "x \<in> settled st \<Longrightarrow> best (relax w u cu pu vs st) x = best st x"
  by (induction vs arbitrary: st) (simp_all add: relax_edge_best_settled relax_edge_settled)

lemma relax_best_cases:
  "best (relax w u cu pu vs st) x = Some (c, p) \<Longrightarrow>
     best st x = Some (c, p) \<or>
     (x \<in> set vs \<and> x \<notin> settled st \<and> c = cu + w u x \<and> p = pu @ [x])"
proof (induction vs arbitrary: st)
  case Nil
  then show ?case by simp
next
  case (Cons a vs)
  from Cons.prems have "best (relax w u cu pu vs (relax_edge w u cu pu a st)) x = Some (c, p)"
    by simp
  from Cons.IH [OF this] show ?case
    using relax_edge_best_cases [of w u cu pu a st x c p]
    by (auto simp: relax_edge_settled)
qed

lemma relax_best_mono:
  "best st x = Some (c, p) \<Longrightarrow> \<exists>c' p'. best (relax w u cu pu vs st) x = Some (c', p') \<and> c' \<le> c"
proof (induction vs arbitrary: st c p)
  case Nil
  then show ?case by simp
next
  case (Cons a vs)
  from relax_edge_best_mono [OF Cons.prems, of w u cu pu a]
  obtain c1 p1 where b1: "best (relax_edge w u cu pu a st) x = Some (c1, p1)" and le1: "c1 \<le> c"
    by blast
  from Cons.IH [OF b1] obtain c' p'
    where "best (relax w u cu pu vs (relax_edge w u cu pu a st)) x = Some (c', p')" "c' \<le> c1"
    by blast
  with le1 show ?case by auto
qed

lemma relax_best_relaxed:
  "v \<in> set vs \<Longrightarrow> v \<notin> settled st \<Longrightarrow>
     \<exists>c p. best (relax w u cu pu vs st) v = Some (c, p) \<and> c \<le> cu + w u v"
proof (induction vs arbitrary: st)
  case Nil
  then show ?case by simp
next
  case (Cons a vs)
  show ?case
  proof (cases "v = a")
    case True
    from relax_edge_best_relaxed [OF Cons.prems(2), of w u cu pu]
    obtain c1 p1 where b1: "best (relax_edge w u cu pu a st) v = Some (c1, p1)"
      and le1: "c1 \<le> cu + w u v"
      using True by blast
    from relax_best_mono [OF b1] obtain c' p'
      where "best (relax w u cu pu vs (relax_edge w u cu pu a st)) v = Some (c', p')" "c' \<le> c1"
      by blast
    with le1 show ?thesis by auto
  next
    case False
    with Cons.prems have "v \<in> set vs" "v \<notin> settled (relax_edge w u cu pu a st)"
      by (simp_all add: relax_edge_settled)
    from Cons.IH [OF this] show ?thesis by simp
  qed
qed


lemma queue_lower_bound:
  assumes inv: "invar G w s st" and nn: "nonneg_weights G w"
    and m: "\<And>c v p. (c, v, p) \<in> set (queue G st) \<Longrightarrow> m \<le> c"
  shows "walk G q \<Longrightarrow> hd q \<in> settled st \<Longrightarrow> best st (hd q) = Some (cx, px) \<Longrightarrow>
         last q \<notin> settled st \<Longrightarrow> m \<le> cx + path_cost w q"
proof (induction q arbitrary: cx px rule: induct_list012)
  case 1
  then show ?case by simp
next
  case (2 x)
  then show ?case by simp
next
  case (3 x y r)
  from "3.prems" have edge: "(x, y) \<in> set (graph_edges G)" and wr: "walk G (y # r)"
    and xs: "x \<in> settled st" and bx: "best st x = Some (cx, px)"
    and last: "last (y # r) \<notin> settled st"
    by simp_all
  from invar_relaxed [OF inv xs edge] bx
  obtain cy py where b_y: "best st y = Some (cy, py)" and le: "cy \<le> cx + w x y"
    by auto
  show ?case
  proof (cases "y \<in> settled st")
    case True
    have "m \<le> cy + path_cost w (y # r)"
      using "3.IH"(2) [OF wr _ _ last, of cy py] True b_y by simp
    then show ?thesis using le by simp
  next
    case False
    have "y \<in> set (all_nodes G)" using edge edge_nodes by blast
    then have "(cy, y, py) \<in> set (queue G st)" using False b_y by (simp add: queue_mem)
    then have "m \<le> cy" by (rule m)
    moreover have "0 \<le> path_cost w (y # r)" using nn wr by (rule path_cost_nonneg)
    ultimately show ?thesis using le by simp
  qed
qed

lemma extract_min_cost_least:
  assumes "extract_min xs = Some (cu, u, pu)" and "(c, v, p) \<in> set xs"
  shows "cu \<le> c"
  using extract_min_least [OF assms] by (auto simp: before_def)

lemma initial_queue:
  assumes "settled st = {}" and "best st = [s \<mapsto> (0, [s])]" and "(c, v, p) \<in> set (queue G st)"
  shows "c = 0 \<and> v = s \<and> p = [s]"
  using assms by (auto simp: queue_mem split: if_splits)

lemma extracted_is_optimal:
  assumes inv: "invar G w s st" and nn: "nonneg_weights G w"
    and ex: "extract_min (queue G st) = Some (cu, u, pu)"
    and q: "is_path G s q u"
  shows "cu \<le> path_cost w q"
proof -
  from ex have mem: "(cu, u, pu) \<in> set (queue G st)" by (rule extract_min_mem)
  from q have wq: "walk G q" "hd q = s" "last q = u" by (simp_all add: is_path_def)
  from invar_start [OF inv] consider
      (init) "settled st = {}" "best st = [s \<mapsto> (0, [s])]"
    | (run) "s \<in> settled st" "best st s = Some (0, [s])"
    by blast
  then show ?thesis
  proof cases
    case init
    with mem have "cu = 0" using initial_queue by blast
    then show ?thesis using path_cost_nonneg [OF nn wq(1)] by simp
  next
    case run
    have least: "\<And>c v p. (c, v, p) \<in> set (queue G st) \<Longrightarrow> cu \<le> c"
      using ex extract_min_cost_least by blast
    from mem have "u \<notin> settled st" by (simp add: queue_mem)
    then have "cu \<le> 0 + path_cost w q"
      using queue_lower_bound [OF inv nn least wq(1), where cx = 0 and px = "[s]"] run wq by simp
    then show ?thesis by simp
  qed
qed

lemma leaving_edge:
  "walk G q \<Longrightarrow> hd q \<in> S \<Longrightarrow> last q \<notin> S \<Longrightarrow>
     \<exists>x y. x \<in> S \<and> y \<notin> S \<and> (x, y) \<in> set (graph_edges G)"
proof (induction q rule: induct_list012)
  case 1
  then show ?case by simp
next
  case (2 x)
  then show ?case by simp
next
  case (3 x y r)
  show ?case
  proof (cases "y \<in> S")
    case True
    with 3 show ?thesis by simp
  next
    case False
    with "3.prems" show ?thesis by auto
  qed
qed

lemma queue_not_empty:
  assumes inv: "invar G w s st" and q: "is_path G s q t" and t: "t \<notin> settled st"
  shows "queue G st \<noteq> []"
proof -
  from q have wq: "walk G q" "hd q = s" "last q = t" by (simp_all add: is_path_def)
  from inv have s: "s \<in> set (all_nodes G)" by (rule invar_start_node)
  from invar_start [OF inv] consider
      (init) "settled st = {}" "best st = [s \<mapsto> (0, [s])]"
    | (run) "s \<in> settled st" "best st s = Some (0, [s])"
    by blast
  then show ?thesis
  proof cases
    case init
    with s have "(0, s, [s]) \<in> set (queue G st)" by (simp add: queue_mem)
    then show ?thesis by auto
  next
    case run
    from leaving_edge [OF wq(1), of "settled st"] run wq t
    obtain x y where xy: "x \<in> settled st" "y \<notin> settled st" "(x, y) \<in> set (graph_edges G)"
      by auto
    from invar_relaxed [OF inv xy(1,3)] obtain cy py where "best st y = Some (cy, py)"
      by blast
    moreover have "y \<in> set (all_nodes G)" using xy edge_nodes by blast
    ultimately have "(cy, y, py) \<in> set (queue G st)" using xy by (simp add: queue_mem)
    then show ?thesis by auto
  qed
qed

lemma invar_initial:
  assumes "s \<in> set (all_nodes G)"
  shows "invar G w s \<lparr>best = [s \<mapsto> (0, [s])], settled = {}\<rparr>"
  using assms
  by (auto simp: invar_def paths_sound_def settled_relaxed_def settled_first_def start_known_def
      settled_known_def is_path_def split: if_splits)

lemma invar_step:
  assumes inv: "invar G w s st" and nn: "nonneg_weights G w"
    and ex: "extract_min (queue G st) = Some (cu, u, pu)"
  shows "invar G w s (relax w u cu pu (successors G u) (st\<lparr>settled := insert u (settled st)\<rparr>))"
proof -
  let ?st0 = "st\<lparr>settled := insert u (settled st)\<rparr>"
  let ?st' = "relax w u cu pu (successors G u) ?st0"
  from ex have mem: "(cu, u, pu) \<in> set (queue G st)" by (rule extract_min_mem)
  then have u: "u \<in> set (all_nodes G)" "u \<notin> settled st" "best st u = Some (cu, pu)"
    by (simp_all add: queue_mem)
  have least: "\<And>c v p. (c, v, p) \<in> set (queue G st) \<Longrightarrow> cu \<le> c"
    using ex extract_min_cost_least by blast
  have set': "settled ?st' = insert u (settled st)" by (simp add: relax_settled)
  have keep: "\<And>x. x \<in> insert u (settled st) \<Longrightarrow> best ?st' x = best st x"
    using relax_best_settled [of _ ?st0 w u cu pu "successors G u"] by simp
  note I1 = invar_paths [OF inv] and I2 = invar_relaxed [OF inv] and I3 = invar_first [OF inv]
    and I4 = invar_start [OF inv] and I5 = invar_known [OF inv] and I6 = invar_start_node [OF inv]
  have pu: "is_path G s pu u" "path_cost w pu = cu" using I1 [OF u(3)] by simp_all
  have wpos: "\<And>v. (u, v) \<in> set (graph_edges G) \<Longrightarrow> 0 \<le> w u v"
    using nn by (auto simp: nonneg_weights_def)
  have settled_le: "\<And>x cx px. x \<in> settled st \<Longrightarrow> best st x = Some (cx, px) \<Longrightarrow> cx \<le> cu"
    using I3 u by blast
  have J1: "is_path G s p v \<and> path_cost w p = c" if "best ?st' v = Some (c, p)" for v c p
  proof -
    from relax_best_cases [OF that]
    consider "best st v = Some (c, p)"
      | "v \<in> set (successors G u)" "c = cu + w u v" "p = pu @ [v]"
      by auto
    then show ?thesis
    proof cases
      case 1
      then show ?thesis by (rule I1)
    next
      case 2
      then have "(u, v) \<in> set (graph_edges G)" by (simp add: successors_mem)
      from is_path_snoc [OF pu(1) this, of w] show ?thesis using 2 pu(2) by simp
    qed
  qed
  have J2: "\<exists>cx px cy py. best ?st' x = Some (cx, px) \<and> best ?st' y = Some (cy, py) \<and> cy \<le> cx + w x y"
    if x: "x \<in> insert u (settled st)" and e: "(x, y) \<in> set (graph_edges G)" for x y
  proof (cases "x = u")
    case True
    have bx: "best ?st' u = Some (cu, pu)" using keep [of u] u(3) by simp
    show ?thesis
    proof (cases "y \<in> insert u (settled st)")
      case False
      then have "y \<notin> settled ?st0" by simp
      moreover have "y \<in> set (successors G u)" using e True by (simp add: successors_mem)
      ultimately obtain c p where "best ?st' y = Some (c, p)" "c \<le> cu + w u y"
        using relax_best_relaxed [of y "successors G u" ?st0 w u cu pu] by blast
      with bx True show ?thesis by auto
    next
      case yin: True
      have b_y': "best ?st' y = best st y" using keep [OF yin] .
      show ?thesis
      proof (cases "y = u")
        case True
        with bx \<open>x = u\<close> wpos [of u] e show ?thesis by auto
      next
        case False
        with yin have ys: "y \<in> settled st" by simp
        then obtain cy py where b_y: "best st y = Some (cy, py)" using I5 [of y] by auto
        then have "cy \<le> cu" using settled_le ys by blast
        moreover have "0 \<le> w u y" using wpos e True by simp
        ultimately show ?thesis using bx b_y' b_y True by auto
      qed
    qed
  next
    case False
    with x have xs: "x \<in> settled st" by simp
    from I2 [OF xs e] obtain cx px cy py
      where b: "best st x = Some (cx, px)" "best st y = Some (cy, py)" "cy \<le> cx + w x y"
      by blast
    have bx: "best ?st' x = Some (cx, px)" using keep [of x] xs b(1) by simp
    have "best ?st0 y = Some (cy, py)" using b(2) by simp
    from relax_best_mono [OF this, of w u cu pu "successors G u"]
    obtain c' p' where "best ?st' y = Some (c', p')" "c' \<le> cy" by blast
    with bx b(3) show ?thesis by auto
  qed
  have J3: "cx \<le> cv"
    if x: "x \<in> insert u (settled st)" and v: "v \<notin> insert u (settled st)"
      and bx: "best ?st' x = Some (cx, px)" and bv: "best ?st' v = Some (cv, pv)"
    for x v cx px cv pv
  proof -
    have bx0: "best st x = Some (cx, px)" using keep [OF x] bx by simp
    have cx_le_cu: "cx \<le> cu"
    proof (cases "x = u")
      case True
      with bx0 u(3) show ?thesis by simp
    next
      case False
      with x have "x \<in> settled st" by simp
      then show ?thesis using settled_le bx0 by blast
    qed
    from relax_best_cases [OF bv]
    consider "best st v = Some (cv, pv)"
      | "v \<in> set (successors G u)" "cv = cu + w u v"
      by auto
    then show ?thesis
    proof cases
      case 1
      from I1 [OF 1] have "walk G pv" "last pv = v" by (simp_all add: is_path_def)
      then have "v \<in> set (all_nodes G)" using walk_last by blast
      with v 1 have "(cv, v, pv) \<in> set (queue G st)" by (simp add: queue_mem)
      then have "cu \<le> cv" by (rule least)
      with cx_le_cu show ?thesis by simp
    next
      case 2
      then have "0 \<le> w u v" using wpos by (simp add: successors_mem)
      with 2 cx_le_cu show ?thesis by simp
    qed
  qed
  have J4: "s \<in> insert u (settled st) \<and> best ?st' s = Some (0, [s])"
  proof -
    from I4 show ?thesis
    proof
      assume init: "settled st = {} \<and> best st = [s \<mapsto> (0, [s])]"
      with mem have "u = s" using initial_queue by blast
      with init keep [of s] show ?thesis by simp
    next
      assume "s \<in> settled st \<and> best st s = Some (0, [s])"
      with keep [of s] show ?thesis by simp
    qed
  qed
  have J5: "best ?st' x \<noteq> None" if "x \<in> insert u (settled st)" for x
    using keep [OF that] that I5 [of x] u(3) by auto
  have P1: "paths_sound G w s ?st'"
    unfolding paths_sound_def using J1 by blast
  have P2: "settled_relaxed G w ?st'"
    unfolding settled_relaxed_def set' using J2 by blast
  have P3: "settled_first ?st'"
    unfolding settled_first_def set' using J3 by blast
  have P4: "start_known s ?st'"
    unfolding start_known_def set' using J4 by blast
  have P5: "settled_known ?st'"
    unfolding settled_known_def set' using J5 by blast
  show ?thesis
    unfolding invar_def using P1 P2 P3 P4 P5 I6 by simp
qed

lemma dijkstra_minimal:
  assumes "invar G w s st" and "nonneg_weights G w" and "t \<notin> settled st" and "is_path G s q t"
  shows "\<exists>p. dijkstra G w t st = Some p \<and> is_path G s p t \<and>
             (\<forall>q'. is_path G s q' t \<longrightarrow> path_cost w p \<le> path_cost w q')"
  using assms
proof (induction G w t st rule: dijkstra.induct)
  case (1 G w t st)
  from queue_not_empty [OF "1.prems"(1,4,3)] obtain cu u pu
    where ex: "extract_min (queue G st) = Some (cu, u, pu)"
    by (cases "extract_min (queue G st)") (auto simp: extract_min_None)
  show ?case
  proof (cases "u = t")
    case True
    from ex have "(cu, u, pu) \<in> set (queue G st)" by (rule extract_min_mem)
    then have "best st t = Some (cu, pu)" using True by (simp add: queue_mem)
    with invar_paths [OF "1.prems"(1)] have p: "is_path G s pu t" "path_cost w pu = cu"
      by blast+
    have "\<forall>q'. is_path G s q' t \<longrightarrow> cu \<le> path_cost w q'"
      using extracted_is_optimal [OF "1.prems"(1,2) ex] True by blast
    moreover have "dijkstra G w t st = Some pu"
      using ex True by (simp add: dijkstra.simps [of G w t st])
    ultimately show ?thesis using p by simp
  next
    case False
    let ?st' = "relax w u cu pu (successors G u) (st\<lparr>settled := insert u (settled st)\<rparr>)"
    have inv': "invar G w s ?st'" using invar_step [OF "1.prems"(1,2) ex] .
    have t': "t \<notin> settled ?st'" using "1.prems"(3) False by (simp add: relax_settled)
    have "\<exists>p. dijkstra G w t ?st' = Some p \<and> is_path G s p t \<and>
             (\<forall>q'. is_path G s q' t \<longrightarrow> path_cost w p \<le> path_cost w q')"
      using "1.IH" [OF ex refl refl False inv' "1.prems"(2) t' "1.prems"(4)] .
    moreover have "dijkstra G w t st = dijkstra G w t ?st'"
      using ex False by (simp add: dijkstra.simps [of G w t st])
    ultimately show ?thesis by simp
  qed
qed


text \<open>
  Claim C1. For every pair of start and end nodes that are connected in the graph (there
  is a path \<open>q\<close> between them), PathFinder returns a path between them whose total cost
  under the weight function is minimal: no path between the same nodes costs less. The
  weight function is the one bound to the request; as the specification requires of
  every edge weight, it is not negative on the edges of the graph.
\<close>

theorem pathfinder_returns_minimal_path:
  assumes "\<forall>(u, v) \<in> set (graph_edges G). 0 \<le> w u v" and "is_path G s q t"
  shows "\<exists>p. pathfinder G w s t = Some p \<and> is_path G s p t \<and>
             (\<forall>q'. is_path G s q' t \<longrightarrow> path_cost w p \<le> path_cost w q')"
proof -
  have nn: "nonneg_weights G w" using assms(1) by (simp add: nonneg_weights_def)
  from assms(2) have wq: "walk G q" "hd q = s" by (simp_all add: is_path_def)
  then have "q \<noteq> []" by auto
  then have "s \<in> set (all_nodes G)" using walk_nodes [OF wq(1)] wq(2) by (cases q) auto
  then have "invar G w s \<lparr>best = [s \<mapsto> (0, [s])], settled = {}\<rparr>" by (rule invar_initial)
  from dijkstra_minimal [OF this nn _ assms(2)] show ?thesis
    by (simp add: pathfinder_def)
qed

text \<open>
  The theorem on the fixture: the direct edge from A to D connects the two nodes, the
  search returns the way over B and C, of cost 3 against 10.
\<close>

lemma fixture_pathfinder: "pathfinder fixture fixture_weight 0 3 = Some [0, 1, 2, 3]"
  by (simp add: pathfinder_def fixture_def fixture_weight_def queue_def all_nodes_def successors_def
      before_def relax_edge_def)

theorem pathfinder_returns_minimal_path_witness:
  "is_path fixture 0 [0, 3] 3 \<and>
   pathfinder fixture fixture_weight 0 3 = Some [0, 1, 2, 3] \<and>
   is_path fixture 0 [0, 1, 2, 3] 3 \<and>
   path_cost fixture_weight [0, 1, 2, 3] = 3 \<and>
   path_cost fixture_weight [0, 3] = 10 \<and>
   path_cost fixture_weight [0, 1, 2, 3] \<le> path_cost fixture_weight [0, 3]"
proof -
  have pos: "\<forall>(u, v) \<in> set (graph_edges fixture). 0 \<le> fixture_weight u v"
    by (simp add: fixture_def fixture_weight_def)
  have direct: "is_path fixture 0 [0, 3] 3"
    by (simp add: is_path_def fixture_def all_nodes_def)
  from pathfinder_returns_minimal_path [OF pos direct] fixture_pathfinder
  have "is_path fixture 0 [0, 1, 2, 3] 3"
    and "path_cost fixture_weight [0, 1, 2, 3] \<le> path_cost fixture_weight [0, 3]"
    using direct by auto
  then show ?thesis using direct fixture_pathfinder by (simp add: fixture_weight_def)
qed

subsection \<open>The search reads the weights of the edges only\<close>







end
